theory Spec2Isabelle
  imports Main
begin

section \<open>The UserList component: asynchronous fetch with stale-response cancellation\<close>

text \<open>
  The development embeds the \<^verbatim>\<open>UserList\<close> component of
  \<^verbatim>\<open>src/components/TodoList.tsx\<close>:

  \<^verbatim>\<open>
  const [users, setUsers] = useState<User[]>([]);
  const [loading, setLoading] = useState(true);
  const [error, setError] = useState<string | null>(null);

  useEffect(() => {
    let cancelled = false;
    const load = async () => {
      try {
        setLoading(true);
        setError(null);
        const data = await fetchUsers();
        if (!cancelled) setUsers(data);
      } catch (err) {
        if (!cancelled) setError(err instanceof Error ? err.message : "Something went wrong");
      } finally {
        if (!cancelled) setLoading(false);
      }
    };
    load();
    return () => { cancelled = true; };
  }, [fetchUsers]);

  if (loading) return <loading-spinner/>;
  if (error)   return <error-message>{error}</error-message>;
  return <user-list>{users}</user-list>;
  \<close>

  The three state cells and the closures of the effect are a record that is passed
  explicitly. One step of the model is one run-to-completion task of the JavaScript
  event loop: the synchronous part of an effect run, the continuation of \<^verbatim>\<open>load\<close>
  after its \<^verbatim>\<open>await\<close>, or the cleanup at unmount. State updates issued inside one
  task are applied together, so the model observes the cells between tasks.
\<close>

subsection \<open>Values\<close>

text \<open>The interface \<^verbatim>\<open>User\<close>; its field \<^verbatim>\<open>id\<close> is named \<open>id_user\<close> here.\<close>

record user =
  id_user :: int
  name :: string
  email :: string

text \<open>
  What a promise may be rejected with, or a call may throw: a JavaScript value. The only
  distinction the component makes is \<^verbatim>\<open>err instanceof Error\<close>; \<open>JError m\<close> is an
  instance of \<^verbatim>\<open>Error\<close> (or of a subclass) whose \<^verbatim>\<open>message\<close> is the string
  \<open>m\<close>, as the declaration \<^verbatim>\<open>message: string\<close> has it, and \<open>JObject\<close> is a plain
  object, given by its own properties.
\<close>

datatype js_value =
    JUndefined
  | JNull
  | JBoolean bool
  | JNumber int
  | JString string
  | JError string
  | JObject "(string \<times> js_value) list"

text \<open>
  The handler of \<^verbatim>\<open>load\<close> inspects what it caught: the test
  \<^verbatim>\<open>err instanceof Error\<close> and the read \<^verbatim>\<open>err.message\<close>. On the values of
  \<open>js_value\<close> this inspection completes. JavaScript also has objects on which it throws:
  an instance of \<^verbatim>\<open>Error\<close> whose \<^verbatim>\<open>message\<close> is an accessor that throws, or a
  proxy whose prototype lookup throws. Such an object is \<open>Trap w\<close>, given by the value
  \<open>w\<close> that its inspection throws.
\<close>

datatype exn = Plain js_value | Trap js_value

text \<open>
  How the promise returned by \<^verbatim>\<open>fetchUsers()\<close> settles: fulfilled with a list,
  rejected with a value, or rejected with an object whose inspection throws.
\<close>

datatype outcome = Fulfilled "user list" | Rejected js_value | Rejected_trap js_value

text \<open>
  What the call \<^verbatim>\<open>fetchUsers()\<close> itself does: it returns a promise (which settles
  later, or never), or it throws before returning one, a value or an object whose
  inspection throws.
\<close>

datatype fetch_call = Returns | Throws js_value | Throws_trap js_value

subsection \<open>The component instance\<close>

text \<open>
  Each run of the effect creates a closure with its own variable \<^verbatim>\<open>cancelled\<close>.
  \<open>pending\<close> records that \<^verbatim>\<open>load\<close> of this closure is suspended at its
  \<^verbatim>\<open>await\<close>. Closures are kept in the order of their creation; a closure is
  identified by its position.
\<close>

record closure =
  cancelled :: bool
  pending :: bool

record component =
  users :: "user list"
  loading :: bool
  error :: "string option"
  effects :: "closure list"
  mounted :: bool

text \<open>The state after the first render, before the effect has run.\<close>

definition init :: component where
  "init = \<lparr>users = [], loading = True, error = None, effects = [], mounted = True\<rparr>"

definition setUsers :: "user list \<Rightarrow> component \<Rightarrow> component" where
  "setUsers d s = s\<lparr>users := d\<rparr>"

definition setLoading :: "bool \<Rightarrow> component \<Rightarrow> component" where
  "setLoading b s = s\<lparr>loading := b\<rparr>"

definition setError :: "string option \<Rightarrow> component \<Rightarrow> component" where
  "setError e s = s\<lparr>error := e\<rparr>"

subsection \<open>Exceptions and suspension\<close>

text \<open>
  A block of statements completes normally, completes by throwing a value, or is
  suspended at an \<^verbatim>\<open>await\<close>. Each completion carries the state reached.
\<close>

datatype 's completion = Normal 's | Thrown exn 's | Suspended 's

fun state_of :: "'s completion \<Rightarrow> 's" where
  "state_of (Normal s) = s"
| "state_of (Thrown v s) = s"
| "state_of (Suspended s) = s"

fun is_Thrown :: "'s completion \<Rightarrow> bool" where
  "is_Thrown (Thrown v s) = True"
| "is_Thrown (Normal s) = False"
| "is_Thrown (Suspended s) = False"

text \<open>
  \<^verbatim>\<open>try { body } catch (err) { handler } finally { fin }\<close>: the handler runs when the
  body throws, the finaliser runs when body or handler completes; a value thrown by the
  handler is thrown again after the finaliser, unless the finaliser throws itself.
\<close>

definition try_catch_finally ::
  "('s \<Rightarrow> 's completion) \<Rightarrow> (exn \<Rightarrow> 's \<Rightarrow> 's completion) \<Rightarrow> ('s \<Rightarrow> 's completion)
     \<Rightarrow> 's \<Rightarrow> 's completion" where
  "try_catch_finally body handler fin s =
     (case body s of
        Suspended s1 \<Rightarrow> Suspended s1
      | Normal s1 \<Rightarrow> fin s1
      | Thrown v s1 \<Rightarrow>
          (case handler v s1 of
             Normal s2 \<Rightarrow> fin s2
           | Suspended s2 \<Rightarrow> Suspended s2
           | Thrown w s2 \<Rightarrow>
               (case fin s2 of
                  Normal s3 \<Rightarrow> Thrown w s3
                | Thrown x s3 \<Rightarrow> Thrown x s3
                | Suspended s3 \<Rightarrow> Suspended s3)))"

subsection \<open>The function load\<close>

text \<open>\<^verbatim>\<open>err instanceof Error ? err.message : "Something went wrong"\<close>\<close>

fun instanceof_Error :: "js_value \<Rightarrow> bool" where
  "instanceof_Error (JError m) = True"
| "instanceof_Error v = False"

definition error_message :: "js_value \<Rightarrow> string" where
  "error_message err = (case err of JError m \<Rightarrow> m | _ \<Rightarrow> ''Something went wrong'')"

text \<open>
  The same expression on what the handler caught: it yields the message, or it throws
  (\<open>Inl\<close>) what the inspection of the object throws.
\<close>

fun inspect :: "exn \<Rightarrow> js_value + string" where
  "inspect (Plain v) = Inr (error_message v)"
| "inspect (Trap w) = Inl w"

text \<open>Reading the variable \<^verbatim>\<open>cancelled\<close> of closure \<open>c\<close>.\<close>

definition is_cancelled :: "nat \<Rightarrow> component \<Rightarrow> bool" where
  "is_cancelled c s = cancelled (effects s ! c)"

definition set_pending :: "nat \<Rightarrow> bool \<Rightarrow> component \<Rightarrow> component" where
  "set_pending c b s = s\<lparr>effects := (effects s)[c := (effects s ! c)\<lparr>pending := b\<rparr>]\<rparr>"

text \<open>
  The \<^verbatim>\<open>try\<close> block up to its \<^verbatim>\<open>await\<close>: two state updates and the call of
  \<^verbatim>\<open>fetchUsers\<close>, which throws or returns the promise the block then waits for.
\<close>

definition load_try :: "nat \<Rightarrow> fetch_call \<Rightarrow> component \<Rightarrow> component completion" where
  "load_try c f s =
     (let s1 = setLoading True s;
          s2 = setError None s1
      in case f of
           Throws v \<Rightarrow> Thrown (Plain v) s2
         | Throws_trap w \<Rightarrow> Thrown (Trap w) s2
         | Returns \<Rightarrow> Suspended (set_pending c True s2))"

text \<open>
  The rest of the \<^verbatim>\<open>try\<close> block, when the awaited promise has settled: a rejection is
  thrown at the \<^verbatim>\<open>await\<close>; a fulfilment binds \<^verbatim>\<open>data\<close> and runs
  \<^verbatim>\<open>if (!cancelled) setUsers(data)\<close>.
\<close>

definition load_try_resumed :: "nat \<Rightarrow> outcome \<Rightarrow> component \<Rightarrow> component completion" where
  "load_try_resumed c oc s =
     (case oc of
        Rejected v \<Rightarrow> Thrown (Plain v) s
      | Rejected_trap w \<Rightarrow> Thrown (Trap w) s
      | Fulfilled d \<Rightarrow> Normal (if \<not> is_cancelled c s then setUsers d s else s))"

text \<open>
  The \<^verbatim>\<open>catch\<close> block. A cancelled closure does not inspect what it caught. One
  that is not cancelled evaluates the argument of \<^verbatim>\<open>setError\<close> first: when that
  throws, \<^verbatim>\<open>setError\<close> is not called and the block completes by throwing.
\<close>

definition load_catch :: "nat \<Rightarrow> exn \<Rightarrow> component \<Rightarrow> component completion" where
  "load_catch c err s =
     (if \<not> is_cancelled c s
      then (case inspect err of
              Inr m \<Rightarrow> Normal (setError (Some m) s)
            | Inl w \<Rightarrow> Thrown (Plain w) s)
      else Normal s)"

definition load_finally :: "nat \<Rightarrow> component \<Rightarrow> component completion" where
  "load_finally c s = Normal (if \<not> is_cancelled c s then setLoading False s else s)"

text \<open>
  \<^verbatim>\<open>load()\<close> of closure \<open>c\<close>, from its call to its first suspension or its end. A
  completion \<open>Thrown\<close> is the rejection of the promise that \<^verbatim>\<open>load()\<close> returns.
\<close>

definition load :: "nat \<Rightarrow> fetch_call \<Rightarrow> component \<Rightarrow> component completion" where
  "load c f = try_catch_finally (load_try c f) (load_catch c) (load_finally c)"

text \<open>\<^verbatim>\<open>load()\<close> of closure \<open>c\<close>, from the settlement of the awaited promise to its end.\<close>

definition load_resume :: "nat \<Rightarrow> outcome \<Rightarrow> component \<Rightarrow> component completion" where
  "load_resume c oc = try_catch_finally (load_try_resumed c oc) (load_catch c) (load_finally c)"

subsection \<open>The effect and the lifecycle\<close>

text \<open>The cleanup function of closure \<open>c\<close>: \<^verbatim>\<open>() => { cancelled = true; }\<close>\<close>

definition cleanup :: "nat \<Rightarrow> component \<Rightarrow> component" where
  "cleanup c s = s\<lparr>effects := (effects s)[c := (effects s ! c)\<lparr>cancelled := True\<rparr>]\<rparr>"

text \<open>
  React calls the cleanup of the latest run of an effect before it runs the effect
  again, and when the component unmounts.
\<close>

definition cleanup_latest :: "component \<Rightarrow> component" where
  "cleanup_latest s = (if effects s = [] then s else cleanup (length (effects s) - 1) s)"

text \<open>
  One run of the effect (at mount, and whenever \<^verbatim>\<open>fetchUsers\<close> changes): a new
  closure with \<^verbatim>\<open>cancelled = false\<close>, and the call \<^verbatim>\<open>load()\<close>, whose promise is
  dropped.
\<close>

definition run_effect :: "fetch_call \<Rightarrow> component \<Rightarrow> component" where
  "run_effect f s =
     (let s1 = cleanup_latest s;
          c = length (effects s1);
          s2 = s1\<lparr>effects := effects s1 @ [\<lparr>cancelled = False, pending = False\<rparr>]\<rparr>
      in state_of (load c f s2))"

text \<open>
  The events of a component instance. \<open>Start f\<close> is a run of the effect with a
  \<^verbatim>\<open>fetchUsers\<close> that behaves as \<open>f\<close>; React runs no effect of an unmounted
  component. \<open>Settle c oc\<close> is the settlement of the promise that closure \<open>c\<close> waits
  for; a promise settles once, and only a suspended closure has one. \<open>Dispose\<close> is the
  unmount.
\<close>

datatype event = Start fetch_call | Settle nat outcome | Dispose

fun step :: "event \<Rightarrow> component \<Rightarrow> component" where
  "step (Start f) s = (if mounted s then run_effect f s else s)"
| "step (Settle c oc) s =
     (if c < length (effects s) \<and> pending (effects s ! c)
      then state_of (load_resume c oc (set_pending c False s))
      else s)"
| "step Dispose s = (if mounted s then (cleanup_latest s)\<lparr>mounted := False\<rparr> else s)"

definition run :: "event list \<Rightarrow> component \<Rightarrow> component" where
  "run es s = fold step es s"

subsection \<open>What the component shows\<close>

text \<open>
  The three returns of the component function, in their order. \<^verbatim>\<open>if (error)\<close> tests
  truthiness: \<^verbatim>\<open>null\<close> and the empty string both fail it.
\<close>

datatype view =
    is_Loading: Loading
  | is_Failure: Failure (message: string)
  | is_Success: Success (data: "user list")

definition render :: "component \<Rightarrow> view" where
  "render s =
     (if loading s then Loading
      else case error s of
             Some m \<Rightarrow> if m \<noteq> [] then Failure m else Success (users s)
           | None \<Rightarrow> Success (users s))"

text \<open>The state cells, without the bookkeeping of closures.\<close>

definition cells :: "component \<Rightarrow> user list \<times> bool \<times> string option" where
  "cells s = (users s, loading s, error s)"

subsection \<open>Auxiliary notions for the proofs\<close>

text \<open>The closures after the cleanup of the latest one.\<close>

definition cancel_latest :: "closure list \<Rightarrow> closure list" where
  "cancel_latest cs = cs[length cs - 1 := (cs ! (length cs - 1))\<lparr>cancelled := True\<rparr>]"

text \<open>The state updates of a closure that is not cancelled, for each outcome.\<close>

fun commit :: "outcome \<Rightarrow> component \<Rightarrow> component" where
  "commit (Fulfilled d) s = s\<lparr>users := d, loading := False\<rparr>"
| "commit (Rejected v) s = s\<lparr>error := Some (error_message v), loading := False\<rparr>"
| "commit (Rejected_trap w) s = s\<lparr>loading := False\<rparr>"

text \<open>
  The invariant of the reachable states: every closure but the latest is cancelled, and
  the latest too once the component is unmounted; no error is held while loading; a
  closure that still waits and is not cancelled implies that the component is loading.
\<close>

definition invar :: "component \<Rightarrow> bool" where
  "invar s =
     (list_all cancelled (butlast (effects s)) \<and>
      (mounted s \<or> list_all cancelled (effects s)) \<and>
      (\<not> loading s \<or> error s = None) \<and>
      list_all (\<lambda>c. \<not> pending c \<or> cancelled c \<or> loading s) (effects s))"

text \<open>In a mounted component the latest closure is not cancelled.\<close>

definition latest_live :: "component \<Rightarrow> bool" where
  "latest_live s =
     (\<not> mounted s \<or> effects s = [] \<or> \<not> cancelled (effects s ! (length (effects s) - 1)))"

text \<open>An event that is the settlement of a closure other than \<open>k\<close>.\<close>

fun other_settlement :: "nat \<Rightarrow> event \<Rightarrow> bool" where
  "other_settlement k (Settle c oc) = (c \<noteq> k)"
| "other_settlement k (Start f) = False"
| "other_settlement k Dispose = False"

section \<open>The steps, characterised\<close>

lemmas load_defs =
  load_def load_resume_def try_catch_finally_def load_try_def load_try_resumed_def
  load_catch_def load_finally_def is_cancelled_def set_pending_def
  setUsers_def setLoading_def setError_def

lemma cancel_latest_Nil [simp]: "cancel_latest [] = []"
  by (simp add: cancel_latest_def)

lemma cancel_latest_snoc [simp]: "cancel_latest (cs @ [c]) = cs @ [c\<lparr>cancelled := True\<rparr>]"
  by (simp add: cancel_latest_def)

lemma length_cancel_latest [simp]: "length (cancel_latest cs) = length cs"
  by (simp add: cancel_latest_def)

lemma list_all_cancel_latest:
  "list_all cancelled (butlast cs) \<Longrightarrow> list_all cancelled (cancel_latest cs)"
  by (cases cs rule: rev_cases) simp_all

lemma cleanup_latest_eq: "cleanup_latest s = s\<lparr>effects := cancel_latest (effects s)\<rparr>"
  by (simp add: cleanup_latest_def cleanup_def cancel_latest_def)

lemma step_Start_Returns:
  "mounted s \<Longrightarrow> step (Start Returns) s =
     s\<lparr>loading := True, error := None,
       effects := cancel_latest (effects s) @ [\<lparr>cancelled = False, pending = True\<rparr>]\<rparr>"
  by (simp add: run_effect_def cleanup_latest_eq load_defs Let_def)

lemma step_Start_Throws:
  "mounted s \<Longrightarrow> step (Start (Throws v)) s =
     s\<lparr>loading := False, error := Some (error_message v),
       effects := cancel_latest (effects s) @ [\<lparr>cancelled = False, pending = False\<rparr>]\<rparr>"
  by (simp add: run_effect_def cleanup_latest_eq load_defs Let_def)

lemma step_Start_Throws_trap:
  "mounted s \<Longrightarrow> step (Start (Throws_trap w)) s =
     s\<lparr>loading := False, error := None,
       effects := cancel_latest (effects s) @ [\<lparr>cancelled = False, pending = False\<rparr>]\<rparr>"
  by (simp add: run_effect_def cleanup_latest_eq load_defs Let_def)

lemma step_Dispose:
  "step Dispose s =
     (if mounted s then s\<lparr>effects := cancel_latest (effects s), mounted := False\<rparr> else s)"
  by (simp add: cleanup_latest_eq)

lemma step_Settle:
  "step (Settle c oc) s =
     (if c < length (effects s) \<and> pending (effects s ! c)
      then (if cancelled (effects s ! c) then id else commit oc)
             (s\<lparr>effects := (effects s)[c := (effects s ! c)\<lparr>pending := False\<rparr>]\<rparr>)
      else s)"
  by (cases oc) (simp_all add: load_defs)

lemma step_Start_unmounted: "\<not> mounted s \<Longrightarrow> step (Start f) s = s"
  by simp

declare step.simps [simp del]

lemma run_Nil [simp]: "run [] s = s"
  by (simp add: run_def)

lemma run_Cons [simp]: "run (e # es) s = run es (step e s)"
  by (simp add: run_def)

lemma run_append: "run (es @ es') s = run es' (run es s)"
  by (simp add: run_def)

section \<open>The invariant\<close>

lemma invar_init: "invar init"
  by (simp add: invar_def init_def)

lemma butlast_cancelled_nth:
  "list_all cancelled (butlast cs) \<Longrightarrow> Suc c < length cs \<Longrightarrow> cancelled (cs ! c)"
  by (simp add: list_all_length nth_butlast)

lemma invar_Start: "invar s \<Longrightarrow> invar (step (Start f) s)"
proof (cases "mounted s")
  case False
  assume "invar s" with False show ?thesis by (simp add: step_Start_unmounted)
next
  case True
  assume i: "invar s"
  then have c: "list_all cancelled (cancel_latest (effects s))"
    by (simp add: invar_def list_all_cancel_latest)
  then have p: "list_all (\<lambda>c. \<not> pending c \<or> cancelled c \<or> b) (cancel_latest (effects s))" for b
    by (simp add: list_all_iff)
  show ?thesis
  proof (cases f)
    case Returns
    with True c p show ?thesis by (simp add: step_Start_Returns invar_def list_all_iff)
  next
    case (Throws v)
    with True c p show ?thesis by (simp add: step_Start_Throws invar_def list_all_iff)
  next
    case (Throws_trap w)
    with True c p show ?thesis by (simp add: step_Start_Throws_trap invar_def list_all_iff)
  qed
qed

lemma invar_Dispose: "invar s \<Longrightarrow> invar (step Dispose s)"
proof (cases "mounted s")
  case False
  assume "invar s" with False show ?thesis by (simp add: step_Dispose)
next
  case True
  assume i: "invar s"
  then have c: "list_all cancelled (cancel_latest (effects s))"
    by (simp add: invar_def list_all_cancel_latest)
  then have "list_all cancelled (butlast (cancel_latest (effects s)))"
    by (auto simp: list_all_iff dest: in_set_butlastD)
  moreover from c have "list_all (\<lambda>c. \<not> pending c \<or> cancelled c \<or> b) (cancel_latest (effects s))" for b
    by (simp add: list_all_iff)
  ultimately show ?thesis using True c i by (simp add: step_Dispose invar_def)
qed


lemma cancelled_nth_update_pending [simp]:
  "cancelled (cs[c := (cs ! c)\<lparr>pending := b\<rparr>] ! n) = cancelled (cs ! n)"
  by (cases "c < length cs") (simp_all add: nth_list_update list_update_beyond)

lemma pending_nth_update_pending:
  "c < length cs \<Longrightarrow>
     pending (cs[c := (cs ! c)\<lparr>pending := b\<rparr>] ! n) = (if n = c then b else pending (cs ! n))"
  by (simp add: nth_list_update)

lemma invar_Settle: "invar s \<Longrightarrow> invar (step (Settle c oc) s)"
proof (cases "c < length (effects s) \<and> pending (effects s ! c)")
  case False
  assume "invar s" with False show ?thesis by (auto simp: step_Settle)
next
  case True
  assume i: "invar s"
  let ?cs = "(effects s)[c := (effects s ! c)\<lparr>pending := False\<rparr>]"
  have c1: "list_all cancelled (butlast ?cs)"
    using i by (simp add: invar_def list_all_length nth_butlast)
  have c2: "mounted s \<or> list_all cancelled ?cs"
    using i by (auto simp: invar_def list_all_length)
  show ?thesis
  proof (cases "cancelled (effects s ! c)")
    case True
    with i \<open>c < length (effects s) \<and> pending (effects s ! c)\<close> c1 c2 show ?thesis
      by (auto simp: step_Settle invar_def list_all_length pending_nth_update_pending)
  next
    case False
    with i have "\<not> Suc c < length (effects s)"
      by (auto simp: invar_def dest: butlast_cancelled_nth)
    with True have l: "Suc c = length (effects s)" by simp
    have p: "list_all (\<lambda>c. \<not> pending c \<or> cancelled c \<or> b) ?cs" for b
      using i l by (auto simp: invar_def list_all_length pending_nth_update_pending nth_butlast less_Suc_eq)
    from False True c1 c2 p [of False] show ?thesis
      by (cases oc) (simp_all add: step_Settle invar_def)
  qed
qed

lemma invar_step: "invar s \<Longrightarrow> invar (step e s)"
  by (cases e) (simp_all add: invar_Start invar_Settle invar_Dispose)

lemma invar_run: "invar s \<Longrightarrow> invar (run es s)"
  by (induction es arbitrary: s) (simp_all add: invar_step)

lemma invar_reachable: "invar (run es init)"
  by (simp add: invar_run invar_init)

section \<open>One fetch cycle\<close>

lemma error_message_Error: "error_message (JError m) = m"
  by (simp add: error_message_def)

lemma error_message_fallback:
  "\<not> instanceof_Error v \<Longrightarrow> error_message v = ''Something went wrong''"
  by (cases v) (simp_all add: error_message_def)

lemma error_message_nonempty: "v \<noteq> JError [] \<Longrightarrow> error_message v \<noteq> []"
  by (cases v) (simp_all add: error_message_def)

lemma update_after_cancel_latest:
  "(cancel_latest cs @ [x])[length cs := y] = cancel_latest cs @ [y]"
  by (simp add: list_update_append)

lemma single_cycle:
  "mounted s \<Longrightarrow>
     step (Settle (length (effects s)) oc) (step (Start Returns) s) =
       commit oc (s\<lparr>loading := True, error := None,
         effects := cancel_latest (effects s) @ [\<lparr>cancelled = False, pending = False\<rparr>]\<rparr>)"
  by (simp add: step_Start_Returns step_Settle nth_append update_after_cancel_latest)

text \<open>The equations that evaluate a run on concrete events.\<close>

lemmas eval_defs =
  step.simps run_effect_def cleanup_latest_def cleanup_def load_defs init_def
  error_message_def render_def cells_def Let_def

text \<open>The same, with each step in its characterised form.\<close>

lemmas run_defs =
  init_def step_Start_Returns step_Start_Throws step_Start_Throws_trap step_Start_unmounted
  step_Settle step_Dispose
  cancel_latest_def error_message_def render_def cells_def

text \<open>
  C7, as the code has it. Whatever value \<^verbatim>\<open>fetchUsers\<close> throws or rejects with, among
  the values whose inspection by the handler completes, \<^verbatim>\<open>load\<close> never completes by
  throwing, neither in its synchronous part nor after its \<^verbatim>\<open>await\<close>: the promise it
  returns is never rejected. A cancelled closure never throws at all, since it inspects
  nothing. In a closure that is not cancelled the failure ends in the cells: \<open>users\<close> as
  before, \<open>loading\<close> false, \<open>error\<close> the normalised message; and unless the value is an
  instance of \<^verbatim>\<open>Error\<close> with the empty message, the component shows \<open>Failure\<close> with
  that message, also when a run of the effect meets a \<^verbatim>\<open>fetchUsers\<close> that throws.
\<close>

theorem failure_absorbed:
  "\<not> is_Thrown (load c Returns s) \<and>
   \<not> is_Thrown (load c (Throws v) s) \<and>
   \<not> is_Thrown (load_resume c (Fulfilled d) s) \<and>
   \<not> is_Thrown (load_resume c (Rejected v) s) \<and>
   (is_cancelled c s \<longrightarrow> \<not> is_Thrown (load c f s) \<and> \<not> is_Thrown (load_resume c oc s)) \<and>
   (\<not> is_cancelled c s \<longrightarrow>
      cells (state_of (load c (Throws v) s)) = (users s, False, Some (error_message v)) \<and>
      cells (state_of (load_resume c (Rejected v) s))
        = (users s, False, Some (error_message v))) \<and>
   (\<not> is_cancelled c s \<and> v \<noteq> JError [] \<longrightarrow>
      render (state_of (load c (Throws v) s)) = Failure (error_message v) \<and>
      render (state_of (load_resume c (Rejected v) s)) = Failure (error_message v)) \<and>
   (mounted s \<and> v \<noteq> JError [] \<longrightarrow>
      render (step (Start (Throws v)) s) = Failure (error_message v))"
proof -
  have a: "\<not> is_Thrown (load c Returns s)" "\<not> is_Thrown (load c (Throws v) s)"
    "\<not> is_Thrown (load_resume c (Fulfilled d) s)" "\<not> is_Thrown (load_resume c (Rejected v) s)"
    by (simp_all add: load_defs Let_def)
  have b: "is_cancelled c s \<longrightarrow> \<not> is_Thrown (load c f s)"
    by (cases f) (simp_all add: load_defs Let_def)
  have c: "is_cancelled c s \<longrightarrow> \<not> is_Thrown (load_resume c oc s)"
    by (cases oc) (simp_all add: load_defs)
  have d: "\<not> is_cancelled c s \<longrightarrow>
      cells (state_of (load c (Throws v) s)) = (users s, False, Some (error_message v)) \<and>
      cells (state_of (load_resume c (Rejected v) s))
        = (users s, False, Some (error_message v))"
    by (simp add: load_defs Let_def cells_def)
  have e: "\<not> is_cancelled c s \<and> v \<noteq> JError [] \<longrightarrow>
      render (state_of (load c (Throws v) s)) = Failure (error_message v) \<and>
      render (state_of (load_resume c (Rejected v) s)) = Failure (error_message v)"
    by (simp add: load_defs Let_def render_def error_message_nonempty)
  have f: "mounted s \<and> v \<noteq> JError [] \<longrightarrow>
      render (step (Start (Throws v)) s) = Failure (error_message v)"
    by (simp add: step_Start_Throws render_def error_message_nonempty)
  from a b c d e f show ?thesis by blast
qed

theorem failure_absorbed_witness:
  "\<not> is_cancelled 0 (run [Start Returns] init) \<and> JError ''boom'' \<noteq> JError [] \<and>
   mounted (run [Start Returns] init) \<and>
   \<not> is_Thrown (load_resume 0 (Rejected (JError ''boom'')) (run [Start Returns] init)) \<and>
   render (state_of (load_resume 0 (Rejected (JError ''boom'')) (run [Start Returns] init)))
     = Failure ''boom'' \<and>
   render (step (Start (Throws (JError ''boom''))) (run [Start Returns] init))
     = Failure ''boom'' \<and>
   is_cancelled 0 (run [Start Returns, Start Returns] init) \<and>
   \<not> is_Thrown (load_resume 0 (Rejected_trap JNull) (run [Start Returns, Start Returns] init))"
proof -
  have n: "\<not> is_cancelled 0 (run [Start Returns] init)"
    and m: "mounted (run [Start Returns] init)"
    and k: "is_cancelled 0 (run [Start Returns, Start Returns] init)"
    by (simp_all add: run_defs is_cancelled_def)
  from failure_absorbed [of 0 "run [Start Returns] init" "JError ''boom''" "[]" Returns
      "Fulfilled []"]
    failure_absorbed [of 0 "run [Start Returns, Start Returns] init" JNull "[]" Returns
      "Rejected_trap JNull"] n m k
  show ?thesis by (simp add: error_message_def del: run_Cons)
qed

text \<open>
  C7 as stated fails. A \<^verbatim>\<open>fetchUsers\<close> that throws \<^verbatim>\<open>new Error("")\<close> leaves the
  component showing \<open>Success\<close>, not \<open>Failure\<close>. And when the promise is rejected with an
  object whose inspection throws, the handler of a closure that is not cancelled throws,
  and the promise of \<^verbatim>\<open>load()\<close> is rejected.
\<close>

theorem failure_not_always_absorbed:
  "render (run [Start (Throws (JError ''''))] init) = Success [] \<and>
   \<not> is_cancelled 0 (run [Start Returns] init) \<and>
   is_Thrown (load_resume 0 (Rejected_trap JNull) (run [Start Returns] init))"
  by (simp add: run_defs load_defs)

text \<open>
  C8. In a mounted component, one run of the effect whose promise is fulfilled with the
  list \<open>l\<close>, with no other event before the settlement, ends with \<open>users = l\<close>, no error
  and \<open>loading\<close> false: the component shows \<open>Success l\<close>.
\<close>

theorem fulfilled_start_yields_Success:
  "mounted s \<Longrightarrow>
     cells (run [Start Returns, Settle (length (effects s)) (Fulfilled l)] s) = (l, False, None) \<and>
     render (run [Start Returns, Settle (length (effects s)) (Fulfilled l)] s) = Success l"
  by (simp add: single_cycle cells_def render_def)

theorem fulfilled_start_yields_Success_witness:
  "mounted init \<and>
   render (run [Start Returns,
       Settle 0 (Fulfilled [\<lparr>id_user = 1, name = ''a'', email = ''a@example.com''\<rparr>,
                            \<lparr>id_user = 2, name = ''b'', email = ''b@example.com''\<rparr>])] init)
     = Success [\<lparr>id_user = 1, name = ''a'', email = ''a@example.com''\<rparr>,
                \<lparr>id_user = 2, name = ''b'', email = ''b@example.com''\<rparr>]"
  using fulfilled_start_yields_Success [of init
      "[\<lparr>id_user = 1, name = ''a'', email = ''a@example.com''\<rparr>,
        \<lparr>id_user = 2, name = ''b'', email = ''b@example.com''\<rparr>]"]
  by (simp add: init_def)

text \<open>
  C10. When the promise is rejected with a value that is not an instance of
  \<^verbatim>\<open>Error\<close>, the message committed is the fixed string \<open>Something went wrong\<close>, and
  the component shows it as the failure.
\<close>

theorem non_Error_rejection_yields_fallback:
  "mounted s \<Longrightarrow> \<not> instanceof_Error v \<Longrightarrow>
     error (run [Start Returns, Settle (length (effects s)) (Rejected v)] s)
       = Some ''Something went wrong'' \<and>
     render (run [Start Returns, Settle (length (effects s)) (Rejected v)] s)
       = Failure ''Something went wrong''"
  by (simp add: single_cycle render_def error_message_fallback)

theorem non_Error_rejection_yields_fallback_witness:
  "mounted init \<and> \<not> instanceof_Error (JObject [(''message'', JString ''custom'')]) \<and>
   render (run [Start Returns,
       Settle 0 (Rejected (JObject [(''message'', JString ''custom'')]))] init)
     = Failure ''Something went wrong''"
  using non_Error_rejection_yields_fallback [of init "JObject [(''message'', JString ''custom'')]"]
  by (simp add: init_def)

text \<open>
  C4, as the code has it. When the promise is rejected with an instance of \<^verbatim>\<open>Error\<close>
  whose message is \<open>m\<close>, the cell \<open>error\<close> holds \<open>m\<close> verbatim, and for a non-empty \<open>m\<close>
  the component shows \<open>Failure m\<close>. The message field of a value that is not an instance
  of \<^verbatim>\<open>Error\<close> is not read.
\<close>

theorem Error_rejection_keeps_message:
  "mounted s \<Longrightarrow>
     error (run [Start Returns, Settle (length (effects s)) (Rejected (JError m))] s) = Some m \<and>
     (m \<noteq> [] \<longrightarrow>
        render (run [Start Returns, Settle (length (effects s)) (Rejected (JError m))] s)
          = Failure m)"
  by (simp add: single_cycle render_def error_message_Error)

theorem Error_rejection_keeps_message_witness:
  "mounted init \<and> ''boom'' \<noteq> [] \<and>
   render (run [Start Returns, Settle 0 (Rejected (JError ''boom''))] init) = Failure ''boom''"
  using Error_rejection_keeps_message [of init "''boom''"]
  by (simp add: init_def)

text \<open>
  C4 as stated fails: a plain object with the message field \<open>custom\<close> is not an instance
  of \<^verbatim>\<open>Error\<close>, and the message shown is not \<open>custom\<close>.
\<close>

theorem message_field_of_plain_object_not_used:
  "message (render (run [Start Returns,
       Settle 0 (Rejected (JObject [(''message'', JString ''custom'')]))] init))
     \<noteq> ''custom''"
  by (simp add: eval_defs)




section \<open>Stale and disposed cycles\<close>

lemma mounted_Settle [simp]: "mounted (step (Settle c oc) s) = mounted s"
  by (cases oc) (simp_all add: step_Settle)

lemma length_effects_Settle [simp]:
  "length (effects (step (Settle c oc) s)) = length (effects s)"
  by (cases oc) (simp_all add: step_Settle)

lemma Settle_cancelled:
  "c < length (effects s) \<Longrightarrow> cancelled (effects s ! c) \<Longrightarrow>
     users (step (Settle c oc) s) = users s \<and>
     loading (step (Settle c oc) s) = loading s \<and>
     error (step (Settle c oc) s) = error s"
  by (simp add: step_Settle)

lemma Settle_out_of_range:
  "\<not> c < length (effects s) \<Longrightarrow> step (Settle c oc) s = s"
  by (simp add: step_Settle)

text \<open>
  In a reachable state the settlement of any closure but the latest, and of every closure
  of an unmounted component, writes no cell.
\<close>

lemma Settle_stale:
  assumes "invar s" and "c \<noteq> length (effects s) - 1 \<or> \<not> mounted s"
  shows "users (step (Settle c oc) s) = users s \<and>
     loading (step (Settle c oc) s) = loading s \<and>
     error (step (Settle c oc) s) = error s"
proof (cases "c < length (effects s)")
  case False
  then show ?thesis by (simp add: Settle_out_of_range)
next
  case True
  have "cancelled (effects s ! c)"
  proof (cases "mounted s")
    case False
    with assms(1) True show ?thesis by (simp add: invar_def list_all_length)
  next
    case m: True
    with assms(2) True have "Suc c < length (effects s)" by auto
    with assms(1) show ?thesis by (simp add: invar_def butlast_cancelled_nth)
  qed
  with True show ?thesis by (simp add: Settle_cancelled)
qed

lemma unmounted_step:
  assumes "invar s" and "\<not> mounted s"
  shows "\<not> mounted (step e s) \<and> cells (step e s) = cells s"
proof (cases e)
  case (Start f)
  with assms show ?thesis by (simp add: step_Start_unmounted)
next
  case (Settle c oc)
  with assms Settle_stale [of s c oc] show ?thesis by (simp add: cells_def)
next
  case Dispose
  with assms show ?thesis by (simp add: step_Dispose)
qed

lemma unmounted_run:
  "invar s \<Longrightarrow> \<not> mounted s \<Longrightarrow> cells (run es s) = cells s"
proof (induction es arbitrary: s)
  case Nil
  show ?case by simp
next
  case (Cons e es)
  from Cons.prems have "invar (step e s)" "\<not> mounted (step e s)" "cells (step e s) = cells s"
    by (simp_all add: invar_step unmounted_step)
  with Cons.IH [of "step e s"] show ?case by simp
qed

lemma Dispose_cells: "cells (step Dispose s) = cells s \<and> \<not> mounted (step Dispose s)"
  by (simp add: step_Dispose cells_def)

text \<open>
  C2. After \<open>Dispose\<close>, in any reachable state, no later event changes a cell: whatever
  settles afterwards, fulfilled or rejected, \<open>users\<close>, \<open>loading\<close> and \<open>error\<close> are those
  of the state in which \<open>Dispose\<close> happened. In particular a cycle that was pending at
  that time commits nothing when it settles.
\<close>

theorem no_commit_after_dispose:
  "cells (run (es @ Dispose # es') init) = cells (run es init)"
proof -
  let ?s = "step Dispose (run es init)"
  have "invar ?s" by (simp add: invar_step invar_reachable)
  then have "cells (run es' ?s) = cells ?s"
    by (rule unmounted_run) (simp add: Dispose_cells)
  then show ?thesis by (simp add: run_append Dispose_cells)
qed

theorem no_commit_after_dispose_witness:
  "cells (run ([Start Returns] @ Dispose #
       [Settle 0 (Fulfilled [\<lparr>id_user = 26, name = ''z'', email = ''z@example.com''\<rparr>])]) init)
     = cells (run [Start Returns] init) \<and>
   render (run [Start Returns] init) = Loading \<and>
   render (run [Start Returns, Dispose,
       Settle 0 (Fulfilled [\<lparr>id_user = 26, name = ''z'', email = ''z@example.com''\<rparr>])] init)
     = Loading"
  using no_commit_after_dispose [of "[Start Returns]"
      "[Settle 0 (Fulfilled [\<lparr>id_user = 26, name = ''z'', email = ''z@example.com''\<rparr>])]"]
  by (simp add: run_defs)

lemma stays_loading:
  assumes "list_all (other_settlement k) es"
    and "invar s" and "mounted s" and "loading s" and "length (effects s) = Suc k"
  shows "loading (run es s)"
  using assms
proof (induction es arbitrary: s)
  case Nil
  then show ?case by simp
next
  case (Cons e es)
  from Cons.prems(1) obtain c oc where e: "e = Settle c oc" and c: "c \<noteq> k"
    by (cases e) simp_all
  from Cons.prems c have "loading (step (Settle c oc) s)"
    using Settle_stale [of s c oc] by simp
  with Cons.prems e have "loading (run es (step e s))"
    by (intro Cons.IH) (simp_all add: invar_step)
  then show ?case by simp
qed

text \<open>
  C9. Let the effect run in a reachable, mounted state, and let its promise never settle.
  As long as there is no further run of the effect and no unmount, so that the only
  events are settlements of the promises of earlier closures, the component shows
  \<open>Loading\<close> after every such event.
\<close>

theorem never_settling_stays_Loading:
  "mounted (run es init) \<Longrightarrow>
   list_all (other_settlement (length (effects (run es init)))) es' \<Longrightarrow>
     render (run (es @ Start Returns # es') init) = Loading"
proof -
  assume m: "mounted (run es init)"
    and o: "list_all (other_settlement (length (effects (run es init)))) es'"
  let ?s = "step (Start Returns) (run es init)"
  have "invar ?s" by (simp add: invar_step invar_reachable)
  moreover from m have "mounted ?s" "loading ?s"
    "length (effects ?s) = Suc (length (effects (run es init)))"
    by (simp_all add: step_Start_Returns)
  ultimately have "loading (run es' ?s)"
    using o by (intro stays_loading)
  then show ?thesis by (simp add: run_append render_def)
qed

theorem never_settling_stays_Loading_witness:
  "mounted (run [Start Returns] init) \<and>
   list_all (other_settlement (length (effects (run [Start Returns] init))))
     [Settle 0 (Fulfilled []), Settle 0 (Rejected JNull)] \<and>
   render (run ([Start Returns] @ Start Returns #
       [Settle 0 (Fulfilled []), Settle 0 (Rejected JNull)]) init) = Loading"
proof -
  have m: "mounted (run [Start Returns] init)"
    by (simp add: run_defs)
  have o: "list_all (other_settlement (length (effects (run [Start Returns] init))))
     [Settle 0 (Fulfilled []), Settle 0 (Rejected JNull)]"
    by (simp add: run_defs)
  from never_settling_stays_Loading [OF m o] m o show ?thesis by simp
qed

section \<open>Two overlapping cycles\<close>

lemma two_starts:
  "mounted s \<Longrightarrow>
     step (Start Returns) (step (Start Returns) s) =
       s\<lparr>loading := True, error := None,
         effects := cancel_latest (effects s) @
           [\<lparr>cancelled = True, pending = True\<rparr>, \<lparr>cancelled = False, pending = True\<rparr>]\<rparr>"
  by (simp add: step_Start_Returns)

lemma nth_after_cancel_latest:
  "(cancel_latest cs @ [x, y]) ! length cs = x"
  "(cancel_latest cs @ [x, y]) ! Suc (length cs) = y"
  by (simp_all add: nth_append)

lemma update_after_cancel_latest2:
  "(cancel_latest cs @ [x, y])[length cs := z] = cancel_latest cs @ [z, y]"
  "(cancel_latest cs @ [x, y])[Suc (length cs) := z] = cancel_latest cs @ [x, z]"
  by (simp_all add: list_update_append)

lemma two_cycles:
  "mounted s \<Longrightarrow> a = length (effects s) \<Longrightarrow> b = Suc (length (effects s)) \<Longrightarrow>
     cells (run [Start Returns, Start Returns, Settle a oA] s)
       = cells (run [Start Returns, Start Returns] s) \<and>
     cells (run [Start Returns, Start Returns, Settle a oA, Settle b oB] s)
       = cells (run [Start Returns, Start Returns, Settle b oB] s) \<and>
     cells (run [Start Returns, Start Returns, Settle b oB, Settle a oA] s)
       = cells (run [Start Returns, Start Returns, Settle b oB] s) \<and>
     cells (run [Start Returns, Start Returns, Settle b oB] s)
       = (case oB of
            Fulfilled d \<Rightarrow> (d, False, None)
          | Rejected v \<Rightarrow> (users s, False, Some (error_message v))
          | Rejected_trap w \<Rightarrow> (users s, False, None))"
  by (cases oB)
    (simp_all add: two_starts step_Settle nth_after_cancel_latest update_after_cancel_latest2
      cells_def)

lemma stale_settlement_commits_nothing:
  "c \<noteq> length (effects (run es init)) - 1 \<Longrightarrow>
     cells (step (Settle c oc) (run es init)) = cells (run es init)"
  using Settle_stale [OF invar_reachable, of c es oc] by (simp add: cells_def)

text \<open>
  C1. In a mounted component let the effect run twice in a row, creating closure \<open>a\<close>
  and then closure \<open>b\<close>, both waiting for their promises. The settlement of \<open>a\<close> writes
  no cell, whether it comes before or after the settlement of \<open>b\<close>; in either order the
  cells at the end are those that the outcome of \<open>b\<close> alone gives: the data of \<open>b\<close> with
  no error, or the message of the rejection of \<open>b\<close>. More generally, in every reachable
  state the settlement of any closure but the latest one writes no cell.
\<close>

theorem last_started_wins:
  "mounted s \<Longrightarrow> a = length (effects s) \<Longrightarrow> b = Suc (length (effects s)) \<Longrightarrow>
     cells (run [Start Returns, Start Returns, Settle a oA] s)
       = cells (run [Start Returns, Start Returns] s) \<and>
     cells (run [Start Returns, Start Returns, Settle a oA, Settle b oB] s)
       = cells (run [Start Returns, Start Returns, Settle b oB] s) \<and>
     cells (run [Start Returns, Start Returns, Settle b oB, Settle a oA] s)
       = cells (run [Start Returns, Start Returns, Settle b oB] s) \<and>
     cells (run [Start Returns, Start Returns, Settle b oB] s)
       = (case oB of
            Fulfilled d \<Rightarrow> (d, False, None)
          | Rejected v \<Rightarrow> (users s, False, Some (error_message v))
          | Rejected_trap w \<Rightarrow> (users s, False, None)) \<and>
     (c \<noteq> length (effects (run es init)) - 1 \<longrightarrow>
        cells (step (Settle c oc) (run es init)) = cells (run es init))"
  using two_cycles [of s a b oA oB] stale_settlement_commits_nothing [of c es oc]
  by blast

theorem last_started_wins_witness:
  "mounted init \<and> 0 = length (effects init) \<and> 1 = Suc (length (effects init)) \<and>
   render (run [Start Returns, Start Returns,
       Settle 1 (Fulfilled [\<lparr>id_user = 24, name = ''x'', email = ''x@example.com''\<rparr>]),
       Settle 0 (Fulfilled [\<lparr>id_user = 25, name = ''y'', email = ''y@example.com''\<rparr>])] init)
     = Success [\<lparr>id_user = 24, name = ''x'', email = ''x@example.com''\<rparr>] \<and>
   cells (run [Start Returns, Start Returns,
       Settle 0 (Fulfilled [\<lparr>id_user = 25, name = ''y'', email = ''y@example.com''\<rparr>]),
       Settle 1 (Fulfilled [\<lparr>id_user = 24, name = ''x'', email = ''x@example.com''\<rparr>])] init)
     = ([\<lparr>id_user = 24, name = ''x'', email = ''x@example.com''\<rparr>], False, None) \<and>
   0 \<noteq> length (effects (run [Start Returns, Start Returns] init)) - 1 \<and>
   cells (step (Settle 0 (Rejected JNull)) (run [Start Returns, Start Returns] init))
     = cells (run [Start Returns, Start Returns] init)"
proof -
  have m: "mounted init" and a: "0 = length (effects init)"
    and b: "1 = Suc (length (effects init))"
    by (simp_all add: init_def)
  have c: "0 \<noteq> length (effects (run [Start Returns, Start Returns] init)) - 1"
    by (simp add: run_defs)
  from last_started_wins [OF m a b,
      of "Fulfilled [\<lparr>id_user = 25, name = ''y'', email = ''y@example.com''\<rparr>]"
         "Fulfilled [\<lparr>id_user = 24, name = ''x'', email = ''x@example.com''\<rparr>]"
         0 "[Start Returns, Start Returns]" "Rejected JNull"] m a b c
  show ?thesis
    by (simp add: cells_def render_def del: run_Cons)
qed

section \<open>The cells and the view in reachable states\<close>

lemma users_Start: "users (step (Start f) s) = users s"
  by (cases f; cases "mounted s")
    (simp_all add: step_Start_Returns step_Start_Throws step_Start_Throws_trap
      step_Start_unmounted)

lemma users_Settle_Rejected: "users (step (Settle c (Rejected v)) s) = users s"
  by (simp add: step_Settle)

lemma users_Dispose: "users (step Dispose s) = users s"
  by (simp add: step_Dispose)

lemma is_Failure_render:
  "is_Failure (render s) = (\<not> loading s \<and> error s \<noteq> None \<and> error s \<noteq> Some [])"
  by (simp add: render_def split: option.split)

lemma render_eqI:
  "users s = users t \<Longrightarrow> loading s = loading t \<Longrightarrow> error s = error t \<Longrightarrow>
     render s = render t"
  by (simp add: render_def split: option.splits)

text \<open>
  C3, as the code has it. In every reachable state: while the component shows \<open>Loading\<close>
  the cell \<open>error\<close> is empty; it shows \<open>Failure\<close> exactly when \<open>error\<close> holds a non-empty
  message, and that message is the one shown; when it shows \<open>Success\<close> the data shown is
  the cell \<open>users\<close>. The cell \<open>users\<close> is written by a committed fulfilment only: a run
  of the effect, a rejection and the unmount leave it as it is, so the data of an earlier
  success stays in the cell while the component shows \<open>Loading\<close> or \<open>Failure\<close>.
\<close>

theorem error_iff_Failure:
  "(is_Loading (render (run es init)) \<longrightarrow> error (run es init) = None) \<and>
   (is_Failure (render (run es init)) \<longleftrightarrow>
      error (run es init) \<noteq> None \<and> error (run es init) \<noteq> Some []) \<and>
   (is_Failure (render (run es init)) \<longrightarrow>
      error (run es init) = Some (message (render (run es init)))) \<and>
   (is_Success (render (run es init)) \<longrightarrow>
      data (render (run es init)) = users (run es init)) \<and>
   users (step (Start f) (run es init)) = users (run es init) \<and>
   users (step (Settle c (Rejected v)) (run es init)) = users (run es init) \<and>
   users (step Dispose (run es init)) = users (run es init)"
proof -
  have "invar (run es init)" by (rule invar_reachable)
  then have l: "loading (run es init) \<longrightarrow> error (run es init) = None"
    by (auto simp: invar_def)
  have a: "is_Loading (render (run es init)) \<longrightarrow> error (run es init) = None"
    using l by (simp add: render_def split: if_splits option.splits)
  have b: "is_Failure (render (run es init)) \<longleftrightarrow>
      error (run es init) \<noteq> None \<and> error (run es init) \<noteq> Some []"
    using l unfolding is_Failure_render by (cases "loading (run es init)") simp_all
  have c: "is_Failure (render (run es init)) \<longrightarrow>
      error (run es init) = Some (message (render (run es init)))"
    by (simp add: render_def split: option.splits)
  have d: "is_Success (render (run es init)) \<longrightarrow>
      data (render (run es init)) = users (run es init)"
    by (simp add: render_def split: option.splits)
  from a b c d show ?thesis
    unfolding users_Start users_Settle_Rejected users_Dispose by blast
qed

theorem error_iff_Failure_witness:
  "is_Failure (render (run [Start Returns, Settle 0 (Rejected (JError ''boom''))] init)) \<and>
   error (run [Start Returns, Settle 0 (Rejected (JError ''boom''))] init) = Some ''boom'' \<and>
   is_Loading (render (run [Start Returns] init)) \<and>
   error (run [Start Returns] init) = None \<and>
   is_Success (render (run [Start Returns, Settle 0 (Fulfilled [])] init)) \<and>
   data (render (run [Start Returns, Settle 0 (Fulfilled [])] init))
     = users (run [Start Returns, Settle 0 (Fulfilled [])] init)"
  using error_iff_Failure [of "[Start Returns, Settle 0 (Rejected (JError ''boom''))]"]
    error_iff_Failure [of "[Start Returns]"]
    error_iff_Failure [of "[Start Returns, Settle 0 (Fulfilled [])]"]
  by (simp add: run_defs)

text \<open>
  C3 as stated fails: after a success and a second run of the effect the component shows
  \<open>Loading\<close> while \<open>users\<close> still holds the data; when that second cycle is rejected, it
  shows \<open>Failure\<close> while \<open>users\<close> still holds the data.
\<close>

theorem data_kept_while_Loading_and_Failure:
  "render (run [Start Returns,
       Settle 0 (Fulfilled [\<lparr>id_user = 1, name = ''Alice'', email = ''alice@example.com''\<rparr>]),
       Start Returns] init) = Loading \<and>
   users (run [Start Returns,
       Settle 0 (Fulfilled [\<lparr>id_user = 1, name = ''Alice'', email = ''alice@example.com''\<rparr>]),
       Start Returns] init)
     = [\<lparr>id_user = 1, name = ''Alice'', email = ''alice@example.com''\<rparr>] \<and>
   render (run [Start Returns,
       Settle 0 (Fulfilled [\<lparr>id_user = 1, name = ''Alice'', email = ''alice@example.com''\<rparr>]),
       Start Returns, Settle 1 (Rejected (JError ''boom''))] init) = Failure ''boom'' \<and>
   users (run [Start Returns,
       Settle 0 (Fulfilled [\<lparr>id_user = 1, name = ''Alice'', email = ''alice@example.com''\<rparr>]),
       Start Returns, Settle 1 (Rejected (JError ''boom''))] init)
     = [\<lparr>id_user = 1, name = ''Alice'', email = ''alice@example.com''\<rparr>]"
  by (simp add: run_defs)

lemma latest_live_init: "latest_live init"
  by (simp add: latest_live_def init_def)

lemma latest_live_step: "latest_live s \<Longrightarrow> latest_live (step e s)"
proof (cases e)
  case (Start f)
  show ?thesis
  proof (cases "mounted s")
    case False
    then show ?thesis using Start by (simp add: step_Start_unmounted latest_live_def)
  next
    case True
    then show ?thesis using Start
      by (cases f)
        (simp_all add: step_Start_Returns step_Start_Throws step_Start_Throws_trap
          latest_live_def nth_append)
  qed
next
  case (Settle c oc)
  assume "latest_live s"
  then show ?thesis using Settle
    by (cases oc) (auto simp: step_Settle latest_live_def)
next
  case Dispose
  then show ?thesis by (simp add: step_Dispose latest_live_def)
qed

lemma latest_live_reachable: "latest_live (run es init)"
proof -
  have "latest_live s \<Longrightarrow> latest_live (run es s)" for s
    by (induction es arbitrary: s) (simp_all add: latest_live_step)
  then show ?thesis by (simp add: latest_live_init)
qed

text \<open>
  In a reachable, mounted state the latest closure, while it waits, is not cancelled, and
  the component is loading with no error.
\<close>

lemma current_cycle:
  assumes "invar s" and "latest_live s"
    and "mounted s" and "Suc c = length (effects s)" and "pending (effects s ! c)"
  shows "\<not> cancelled (effects s ! c) \<and> loading s \<and> error s = None"
proof -
  from assms(4) have c: "c = length (effects s) - 1" "c < length (effects s)" "effects s \<noteq> []"
    by auto
  with assms(2,3) have n: "\<not> cancelled (effects s ! c)"
    by (simp add: latest_live_def)
  from assms(1) c(2) have "\<not> pending (effects s ! c) \<or> cancelled (effects s ! c) \<or> loading s"
    by (simp add: invar_def list_all_length)
  with n assms(5) have "loading s" by simp
  with assms(1) n show ?thesis by (simp add: invar_def)
qed

lemma current_settlement:
  assumes "invar s" and "latest_live s"
    and "mounted s" and "Suc c = length (effects s)" and "pending (effects s ! c)"
  shows "render s = Loading \<and>
     \<not> is_Loading (render (step (Settle c oc) s)) \<and>
     cells (step (Settle c oc) s) =
       (case oc of
          Fulfilled d \<Rightarrow> (d, False, None)
        | Rejected v \<Rightarrow> (users s, False, Some (error_message v))
        | Rejected_trap w \<Rightarrow> (users s, False, None))"
proof -
  from current_cycle [OF assms]
  have n: "\<not> cancelled (effects s ! c)" and l: "loading s" and e: "error s = None"
    by simp_all
  from assms(4) have c: "c < length (effects s)" by simp
  from l have "render s = Loading" by (simp add: render_def)
  moreover from n c assms(5) e have "cells (step (Settle c oc) s) =
       (case oc of
          Fulfilled d \<Rightarrow> (d, False, None)
        | Rejected v \<Rightarrow> (users s, False, Some (error_message v))
        | Rejected_trap w \<Rightarrow> (users s, False, None))"
    by (cases oc) (simp_all add: step_Settle cells_def)
  moreover from n c assms(5) have "\<not> loading (step (Settle c oc) s)"
    by (cases oc) (simp_all add: step_Settle)
  then have "\<not> is_Loading (render (step (Settle c oc) s))"
    by (simp add: render_def split: option.splits)
  ultimately show ?thesis by simp
qed

lemma other_settlement_unchanged:
  assumes "invar s"
    and "\<not> (mounted s \<and> Suc c = length (effects s) \<and> pending (effects s ! c))"
  shows "cells (step (Settle c oc) s) = cells s \<and> render (step (Settle c oc) s) = render s"
proof -
  have u: "users (step (Settle c oc) s) = users s \<and>
     loading (step (Settle c oc) s) = loading s \<and>
     error (step (Settle c oc) s) = error s"
  proof (cases "c < length (effects s) \<and> pending (effects s ! c)")
    case False
    then have "step (Settle c oc) s = s" by (auto simp: step_Settle)
    then show ?thesis by simp
  next
    case True
    with assms(2) have "c \<noteq> length (effects s) - 1 \<or> \<not> mounted s" by auto
    with assms(1) show ?thesis by (rule Settle_stale)
  qed
  then have "render (step (Settle c oc) s) = render s" by (intro render_eqI) simp_all
  with u show ?thesis by (simp add: cells_def)
qed

lemma Start_cells:
  assumes "mounted s"
  shows "cells (step (Start Returns) s) = (users s, True, None)"
    and "cells (step (Start (Throws v)) s) = (users s, False, Some (error_message v))"
    and "cells (step (Start (Throws_trap w)) s) = (users s, False, None)"
  using assms
  by (simp_all add: step_Start_Returns step_Start_Throws step_Start_Throws_trap cells_def)

text \<open>
  C6, as the code has it. In every reachable state the view changes in these ways only.
  A run of the effect in a mounted component whose \<^verbatim>\<open>fetchUsers\<close> returns a promise
  takes the component to \<open>Loading\<close>, from whatever it showed (\<open>Loading\<close>, \<open>Success\<close> or
  \<open>Failure\<close>); one whose \<^verbatim>\<open>fetchUsers\<close> throws takes it to a view other than
  \<open>Loading\<close>; in an unmounted component a run of the effect changes nothing. The
  settlement of the current cycle (the latest closure of a mounted component, while it
  waits) happens in \<open>Loading\<close> and takes the component out of \<open>Loading\<close>, with the cells
  that the outcome gives. Every other settlement leaves the cells and the view as they
  are; so does every settlement in a state other than \<open>Loading\<close>, and so does the unmount.
\<close>

theorem transitions_of_render:
  "(mounted (run es init) \<longrightarrow>
      render (step (Start Returns) (run es init)) = Loading \<and>
      cells (step (Start Returns) (run es init)) = (users (run es init), True, None)) \<and>
   (mounted (run es init) \<longrightarrow>
      \<not> is_Loading (render (step (Start (Throws v)) (run es init))) \<and>
      \<not> is_Loading (render (step (Start (Throws_trap w)) (run es init)))) \<and>
   (\<not> mounted (run es init) \<longrightarrow> step (Start f) (run es init) = run es init) \<and>
   (mounted (run es init) \<and> Suc c = length (effects (run es init)) \<and>
    pending (effects (run es init) ! c) \<longrightarrow>
      render (run es init) = Loading \<and>
      \<not> is_Loading (render (step (Settle c oc) (run es init))) \<and>
      cells (step (Settle c oc) (run es init)) =
        (case oc of
           Fulfilled d \<Rightarrow> (d, False, None)
         | Rejected x \<Rightarrow> (users (run es init), False, Some (error_message x))
         | Rejected_trap y \<Rightarrow> (users (run es init), False, None))) \<and>
   (\<not> (mounted (run es init) \<and> Suc c = length (effects (run es init)) \<and>
       pending (effects (run es init) ! c)) \<longrightarrow>
      cells (step (Settle c oc) (run es init)) = cells (run es init) \<and>
      render (step (Settle c oc) (run es init)) = render (run es init)) \<and>
   (\<not> is_Loading (render (run es init)) \<longrightarrow>
      render (step (Settle c oc) (run es init)) = render (run es init)) \<and>
   cells (step Dispose (run es init)) = cells (run es init) \<and>
   render (step Dispose (run es init)) = render (run es init)"
proof -
  let ?s = "run es init"
  have i: "invar ?s" and l: "latest_live ?s"
    by (rule invar_reachable, rule latest_live_reachable)
  have a: "mounted ?s \<longrightarrow>
      render (step (Start Returns) ?s) = Loading \<and>
      cells (step (Start Returns) ?s) = (users ?s, True, None)"
    by (simp add: step_Start_Returns render_def cells_def)
  have b: "mounted ?s \<longrightarrow>
      \<not> is_Loading (render (step (Start (Throws v)) ?s)) \<and>
      \<not> is_Loading (render (step (Start (Throws_trap w)) ?s))"
    by (simp add: step_Start_Throws step_Start_Throws_trap render_def split: option.splits)
  have c: "\<not> mounted ?s \<longrightarrow> step (Start f) ?s = ?s"
    by (simp add: step_Start_unmounted)
  have d: "mounted ?s \<and> Suc c = length (effects ?s) \<and> pending (effects ?s ! c) \<longrightarrow>
      render ?s = Loading \<and>
      \<not> is_Loading (render (step (Settle c oc) ?s)) \<and>
      cells (step (Settle c oc) ?s) =
        (case oc of
           Fulfilled d \<Rightarrow> (d, False, None)
         | Rejected x \<Rightarrow> (users ?s, False, Some (error_message x))
         | Rejected_trap y \<Rightarrow> (users ?s, False, None))"
    using current_settlement [OF i l, of c oc] by blast
  have e: "\<not> (mounted ?s \<and> Suc c = length (effects ?s) \<and> pending (effects ?s ! c)) \<longrightarrow>
      cells (step (Settle c oc) ?s) = cells ?s \<and>
      render (step (Settle c oc) ?s) = render ?s"
    using other_settlement_unchanged [OF i, of c oc] by blast
  have f: "\<not> is_Loading (render ?s) \<longrightarrow> render (step (Settle c oc) ?s) = render ?s"
    using d e by (metis view.disc(1))
  have g: "cells (step Dispose ?s) = cells ?s" "render (step Dispose ?s) = render ?s"
    by (simp add: Dispose_cells, rule render_eqI) (simp_all add: step_Dispose)
  from a b c d e f g show ?thesis by blast
qed

theorem transitions_of_render_witness:
  "mounted (run [Start Returns] init) \<and>
   Suc 0 = length (effects (run [Start Returns] init)) \<and>
   pending (effects (run [Start Returns] init) ! 0) \<and>
   render (run [Start Returns] init) = Loading \<and>
   cells (step (Settle 0 (Fulfilled [])) (run [Start Returns] init)) = ([], False, None) \<and>
   render (step (Start Returns) (run [Start Returns] init)) = Loading \<and>
   \<not> is_Loading (render (step (Start (Throws JNull)) (run [Start Returns] init))) \<and>
   \<not> (mounted (run [Start Returns, Start Returns] init) \<and>
      Suc 0 = length (effects (run [Start Returns, Start Returns] init)) \<and>
      pending (effects (run [Start Returns, Start Returns] init) ! 0)) \<and>
   cells (step (Settle 0 (Fulfilled [\<lparr>id_user = 25, name = ''y'', email = ''y@example.com''\<rparr>]))
       (run [Start Returns, Start Returns] init))
     = cells (run [Start Returns, Start Returns] init) \<and>
   \<not> mounted (run [Dispose] init) \<and>
   step (Start Returns) (run [Dispose] init) = run [Dispose] init \<and>
   \<not> is_Loading (render (run [Start Returns, Settle 0 (Fulfilled [])] init)) \<and>
   render (step (Settle 0 (Rejected JNull)) (run [Start Returns, Settle 0 (Fulfilled [])] init))
     = render (run [Start Returns, Settle 0 (Fulfilled [])] init)"
  using transitions_of_render [where es = "[Start Returns]" and c = 0
      and oc = "Fulfilled []" and v = JNull and w = JNull and f = Returns]
    transitions_of_render [where es = "[Start Returns, Start Returns]" and c = 0
      and oc = "Fulfilled [\<lparr>id_user = 25, name = ''y'', email = ''y@example.com''\<rparr>]"
      and v = JNull and w = JNull and f = Returns]
    transitions_of_render [where es = "[Dispose]" and c = 0
      and oc = "Fulfilled []" and v = JNull and w = JNull and f = Returns]
    transitions_of_render [where es = "[Start Returns, Settle 0 (Fulfilled [])]" and c = 0
      and oc = "Rejected JNull" and v = JNull and w = JNull and f = Returns]
  by (simp add: run_defs)

text \<open>
  C6 as stated fails: when the effect runs again after a success, the component goes from
  \<open>Success\<close> to \<open>Loading\<close>.
\<close>

theorem Success_to_Loading_on_restart:
  "render (run [Start Returns, Settle 0 (Fulfilled [])] init) = Success [] \<and>
   render (step (Start Returns) (run [Start Returns, Settle 0 (Fulfilled [])] init)) = Loading"
  by (simp add: run_defs)

end
